theory Spec2Isabelle
  imports Main "HOL-Library.Word" "HOL-Library.Sublist"
begin

section \<open>JavaScript strings\<close>

text \<open>
  A JavaScript string is a sequence of 16-bit code units. \<open>js\<close> writes an ASCII literal of
  the source as such a sequence.
\<close>

type_synonym code_unit = "16 word"
type_synonym jsstring = "code_unit list"

definition cu :: "char \<Rightarrow> code_unit" where
  "cu c = of_char c"

definition js :: "string \<Rightarrow> jsstring" where
  "js s = map cu s"

text \<open>
  \<open>String.prototype.trim\<close> removes the code units of WhiteSpace and LineTerminator from
  both ends.
\<close>

definition is_white_space :: "code_unit \<Rightarrow> bool" where
  "is_white_space c =
     (c \<in> set [0x9, 0xA, 0xB, 0xC, 0xD, 0x20, 0xA0, 0x1680, 0x2028, 0x2029, 0x202F, 0x205F,
               0x3000, 0xFEFF]
      \<or> (0x2000 \<le> c \<and> c \<le> 0x200A))"

definition trim :: "jsstring \<Rightarrow> jsstring" where
  "trim s = rev (dropWhile is_white_space (rev (dropWhile is_white_space s)))"

definition is_high_surrogate :: "code_unit \<Rightarrow> bool" where
  "is_high_surrogate c = (0xD800 \<le> c \<and> c \<le> 0xDBFF)"

definition is_low_surrogate :: "code_unit \<Rightarrow> bool" where
  "is_low_surrogate c = (0xDC00 \<le> c \<and> c \<le> 0xDFFF)"

text \<open>The string iterator yields one string per code point: a surrogate pair stays together.\<close>

fun code_points :: "jsstring \<Rightarrow> jsstring list" where
  "code_points [] = []"
| "code_points [c] = [[c]]"
| "code_points (c # d # cs) =
     (if is_high_surrogate c \<and> is_low_surrogate d then [c, d] # code_points cs
      else [c] # code_points (d # cs))"

section \<open>Values\<close>

text \<open>
  The values the program handles are those \<open>JSON.parse\<close> builds, and \<open>undefined\<close>, which
  reading an absent property gives. A number keeps its literal: the program never computes
  with one. An object keeps its members in the order of the text.
\<close>

datatype json =
    JUndefined
  | JNull
  | JBoolean bool
  | JNumber jsstring
  | JString jsstring
  | JArray "json list"
  | JObject "(jsstring \<times> json) list"

datatype error =
    SyntaxError
  | TypeError
  | DOMException
  | AxiosError "nat option"

text \<open>
  \<open>data.k\<close> for a value that is neither \<open>null\<close> nor \<open>undefined\<close>, and a key \<open>k\<close> that no
  built-in prototype defines (the program reads \<open>type\<close>, \<open>messages\<close>, \<open>message\<close> and
  \<open>username\<close>). Of a repeated member the last one counts.
\<close>

fun get_prop :: "json \<Rightarrow> jsstring \<Rightarrow> json" where
  "get_prop (JObject kvs) k = (case map_of (rev kvs) k of None \<Rightarrow> JUndefined | Some v \<Rightarrow> v)"
| "get_prop _ k = JUndefined"

text \<open>\<open>[...prev]\<close>: arrays and strings are iterable, every other value raises.\<close>

fun spread :: "json \<Rightarrow> error + json list" where
  "spread (JArray xs) = Inr xs"
| "spread (JString s) = Inr (map JString (code_points s))"
| "spread _ = Inl TypeError"

text \<open>
  A template literal converts its value to a string. The conversion of an object raises when
  the object has a member \<open>toString\<close> of its own (a parsed value is never callable, and the
  inherited \<open>valueOf\<close> returns the object itself); an array converts each element other than
  \<open>null\<close> and \<open>undefined\<close>.
\<close>

fun to_string_throws :: "json \<Rightarrow> bool" where
  "to_string_throws (JObject kvs) = (map_of kvs (js ''toString'') \<noteq> None)"
| "to_string_throws (JArray xs) = (\<exists>x \<in> set xs. to_string_throws x)"
| "to_string_throws _ = False"

section \<open>Configuration\<close>

text \<open>
  \<open>env\<close> is \<open>process.env.REACT_APP_API_URL\<close>, \<open>None\<close> when it is not set; the empty
  string is falsy.
\<close>

definition API_URL :: "jsstring option \<Rightarrow> jsstring" where
  "API_URL env =
     (case env of
        None \<Rightarrow> js ''http://localhost:8000''
      | Some v \<Rightarrow> if v = [] then js ''http://localhost:8000'' else v)"

text \<open>\<open>replace(/^https?:\/\//, '')\<close> and \<open>replace(/\/$/, '')\<close>.\<close>

definition strip_scheme :: "jsstring \<Rightarrow> jsstring" where
  "strip_scheme s =
     (if prefix (js ''http://'') s then drop 7 s
      else if prefix (js ''https://'') s then drop 8 s
      else s)"

definition strip_trailing_slash :: "jsstring \<Rightarrow> jsstring" where
  "strip_trailing_slash s = (if s \<noteq> [] \<and> last s = cu CHR ''/'' then butlast s else s)"

definition WS_URL :: "jsstring option \<Rightarrow> jsstring" where
  "WS_URL env = strip_trailing_slash (strip_scheme (API_URL env))"

section \<open>The component's state and its effects\<close>

text \<open>
  A request to the directory is answered by a promise that is fulfilled, or rejected with an
  error whose \<open>response\<close> holds the status when the server answered.
\<close>

datatype request =
    Get jsstring
  | Post jsstring "(jsstring \<times> jsstring) list"

datatype axios_result =
    Fulfilled
  | Rejected "nat option"

text \<open>
  What the component does to the outside: a request, the construction of a WebSocket for an
  address, a \<open>send\<close> on the socket of an address.
\<close>

datatype effect =
    Http request
  | WsOpen jsstring
  | WsSend jsstring jsstring

text \<open>
  The six \<open>useState\<close> cells, and the effects so far. A socket is known by the address it
  was constructed with. Writes to the console are not part of the state.
\<close>

record app =
  username :: jsstring
  isJoined :: bool
  messages :: json
  inputMessage :: jsstring
  socket :: "jsstring option"
  isConnected :: bool
  effects :: "effect list"

definition initial :: app where
  "initial =
     \<lparr>username = [], isJoined = False, messages = JArray [], inputMessage = [],
      socket = None, isConnected = False, effects = []\<rparr>"

section \<open>The socket's handlers\<close>

definition onopen :: "app \<Rightarrow> app" where
  "onopen st = st\<lparr>isConnected := True\<rparr>"

text \<open>
  \<open>parse\<close> is the platform's \<open>JSON.parse\<close>, \<open>None\<close> where it raises. An exception leaves
  the state as it was. The exception of the spread is raised when the updater
  \<open>prev => [...prev, data.message]\<close> runs.
\<close>

definition onmessage :: "(jsstring \<Rightarrow> json option) \<Rightarrow> jsstring \<Rightarrow> app \<Rightarrow> error + app" where
  "onmessage parse raw st =
     (case parse raw of
        None \<Rightarrow> Inl SyntaxError
      | Some data \<Rightarrow>
          if data = JNull \<or> data = JUndefined then Inl TypeError
          else if get_prop data (js ''type'') = JString (js ''history'') then
            Inr (st\<lparr>messages := get_prop data (js ''messages'')\<rparr>)
          else if get_prop data (js ''type'') = JString (js ''new_message'') then
            (case spread (messages st) of
               Inl e \<Rightarrow> Inl e
             | Inr prev \<Rightarrow> Inr (st\<lparr>messages := JArray (prev @ [get_prop data (js ''message'')])\<rparr>))
          else if get_prop data (js ''type'') = JString (js ''user_joined'') then
            (if to_string_throws (get_prop data (js ''username'')) then Inl TypeError else Inr st)
          else if get_prop data (js ''type'') = JString (js ''user_left'') then
            (if to_string_throws (get_prop data (js ''username'')) then Inl TypeError else Inr st)
          else Inr st)"

definition onclose :: "app \<Rightarrow> app" where
  "onclose st = st\<lparr>isConnected := False\<rparr>"

definition onerror :: "app \<Rightarrow> app" where
  "onerror st = st"

text \<open>
  The socket calls \<open>onmessage\<close> once for each frame, in the order of arrival. An exception
  of one call is reported by the event loop and the next frame is delivered all the same.
\<close>

definition deliver :: "(jsstring \<Rightarrow> json option) \<Rightarrow> app \<Rightarrow> jsstring \<Rightarrow> app" where
  "deliver parse st raw = (case onmessage parse raw st of Inl e \<Rightarrow> st | Inr st' \<Rightarrow> st')"

definition process_frames :: "(jsstring \<Rightarrow> json option) \<Rightarrow> app \<Rightarrow> jsstring list \<Rightarrow> app" where
  "process_frames parse st frames = foldl (deliver parse) st frames"

section \<open>Joining\<close>

text \<open>
  \<open>accepts\<close> tells whether the WebSocket constructor takes the address; it raises
  otherwise, before anything is opened.
\<close>

definition connectWebSocket :: "(jsstring \<Rightarrow> bool) \<Rightarrow> jsstring option \<Rightarrow> app \<Rightarrow> error + app" where
  "connectWebSocket accepts env st =
     (let wsProtocol = (if prefix (js ''https'') (API_URL env) then js ''wss'' else js ''ws'');
          address = wsProtocol @ js ''://'' @ WS_URL env @ js ''/ws/'' @ username st
      in if accepts address
         then Inr (st\<lparr>socket := Some address, effects := effects st @ [WsOpen address]\<rparr>)
         else Inl DOMException)"

text \<open>\<open>error.response && error.response.status === 404\<close>\<close>

fun is_not_found :: "error \<Rightarrow> bool" where
  "is_not_found (AxiosError (Some status)) = (status = 404)"
| "is_not_found _ = False"

text \<open>
  \<open>http\<close> gives the directory's answer to a request. The result is the exception with which
  the promise of \<open>joinChat\<close> is rejected, if any, and the state. \<open>username\<close> is the value
  the closure holds, so it is the same before and after each \<open>await\<close>.
\<close>

definition joinChat ::
  "(request \<Rightarrow> axios_result) \<Rightarrow> (jsstring \<Rightarrow> bool) \<Rightarrow> jsstring option \<Rightarrow> app \<Rightarrow> error option \<times> app"
where
  "joinChat http accepts env st =
     (if trim (username st) = [] then (None, st)
      else
        let lookup = Get (js ''/users/'' @ trim (username st));
            st1 = st\<lparr>effects := effects st @ [Http lookup]\<rparr>;
            tried =
              (case http lookup of
                 Rejected r \<Rightarrow> Inl (AxiosError r, st1)
               | Fulfilled \<Rightarrow>
                   (case connectWebSocket accepts env (st1\<lparr>isJoined := True\<rparr>) of
                      Inl e \<Rightarrow> Inl (e, st1\<lparr>isJoined := True\<rparr>)
                    | Inr st2 \<Rightarrow> Inr st2))
        in case tried of
             Inr st' \<Rightarrow> (None, st')
           | Inl (error, st') \<Rightarrow>
               if is_not_found error then
                 (let create = Post (js ''/users'') [(js ''username'', trim (username st))];
                      st3 = st'\<lparr>effects := effects st' @ [Http create]\<rparr>
                  in case http create of
                       Rejected r \<Rightarrow> (Some (AxiosError r), st3)
                     | Fulfilled \<Rightarrow>
                         (case connectWebSocket accepts env (st3\<lparr>isJoined := True\<rparr>) of
                            Inl e \<Rightarrow> (Some e, st3\<lparr>isJoined := True\<rparr>)
                          | Inr st4 \<Rightarrow> (None, st4)))
               else (None, st'))"

section \<open>Sending\<close>

text \<open>\<open>stringify\<close> is the platform's \<open>JSON.stringify\<close>.\<close>

definition sendMessage :: "(json \<Rightarrow> jsstring) \<Rightarrow> app \<Rightarrow> app" where
  "sendMessage stringify st =
     (if trim (inputMessage st) \<noteq> [] then
        (case socket st of
           None \<Rightarrow> st
         | Some ws \<Rightarrow>
             if isConnected st then
               st\<lparr>effects := effects st @
                     [WsSend ws (stringify (JObject
                        [(js ''type'', JString (js ''message'')),
                         (js ''content'', JString (trim (inputMessage st)))]))],
                  inputMessage := []\<rparr>
             else st)
      else st)"

text \<open>The header shows \<open>(Reconnecting...)\<close> in the chat view while \<open>isConnected\<close> is false.\<close>

definition shows_reconnecting :: "app \<Rightarrow> bool" where
  "shows_reconnecting st = (isJoined st \<and> \<not> isConnected st)"

text \<open>The guard of \<open>sendMessage\<close> takes the connection for open when both hold.\<close>

definition connected :: "app \<Rightarrow> bool" where
  "connected st = (socket st \<noteq> None \<and> isConnected st)"

text \<open>
  How the end of the transport reaches the component. The socket fires \<open>error\<close> only in
  the task that closes the connection, immediately before \<open>close\<close>: a close runs
  \<open>onclose\<close>, an error runs \<open>onerror\<close> and then \<open>onclose\<close>, with nothing of the
  component in between.
\<close>

datatype transport_event =
    TransportClose
  | TransportError

fun transport :: "transport_event \<Rightarrow> app \<Rightarrow> app" where
  "transport TransportClose st = onclose st"
| "transport TransportError st = onclose (onerror st)"

section \<open>A model of the platform\<close>

text \<open>
  The handlers above take \<open>JSON.parse\<close>, \<open>JSON.stringify\<close> and the WebSocket constructor
  as parameters, and the theorems hold for every choice of them. The functions of this section
  are one choice, used to run the program on the frames of a concrete session: a parser for
  the JSON grammar (four white-space characters, the literals, numbers without a leading
  zero, strings with the nine escapes, arrays, objects), and the serialiser for values without
  repeated members.
\<close>

definition is_json_ws :: "code_unit \<Rightarrow> bool" where
  "is_json_ws c = (c \<in> set [0x20, 0x9, 0xA, 0xD])"

definition skip_ws :: "jsstring \<Rightarrow> jsstring" where
  "skip_ws s = dropWhile is_json_ws s"

definition is_digit :: "code_unit \<Rightarrow> bool" where
  "is_digit c = (0x30 \<le> c \<and> c \<le> 0x39)"

definition hex_value :: "code_unit \<Rightarrow> code_unit option" where
  "hex_value c =
     (if 0x30 \<le> c \<and> c \<le> 0x39 then Some (c - 0x30)
      else if 0x41 \<le> c \<and> c \<le> 0x46 then Some (c - 0x41 + 10)
      else if 0x61 \<le> c \<and> c \<le> 0x66 then Some (c - 0x61 + 10)
      else None)"

definition parse_hex4 :: "jsstring \<Rightarrow> code_unit option" where
  "parse_hex4 s =
     (case map hex_value s of
        [Some a, Some b, Some c, Some d] \<Rightarrow> Some (((a * 16 + b) * 16 + c) * 16 + d)
      | _ \<Rightarrow> None)"

definition unescape :: "code_unit \<Rightarrow> code_unit option" where
  "unescape e =
     (if e = 0x22 then Some 0x22
      else if e = 0x5C then Some 0x5C
      else if e = cu CHR ''/'' then Some 0x2F
      else if e = cu CHR ''b'' then Some 0x8
      else if e = cu CHR ''f'' then Some 0xC
      else if e = cu CHR ''n'' then Some 0xA
      else if e = cu CHR ''r'' then Some 0xD
      else if e = cu CHR ''t'' then Some 0x9
      else None)"

fun parse_chars :: "jsstring \<Rightarrow> (jsstring \<times> jsstring) option" where
  "parse_chars [] = None"
| "parse_chars (c # cs) =
     (if c = 0x22 then Some ([], cs)
      else if c = 0x5C then
        (case cs of
           [] \<Rightarrow> None
         | e # es \<Rightarrow>
             if e = cu CHR ''u'' then
               (case es of
                  h1 # h2 # h3 # h4 # rest \<Rightarrow>
                    (case parse_hex4 [h1, h2, h3, h4] of
                       None \<Rightarrow> None
                     | Some u \<Rightarrow> map_option (apfst ((#) u)) (parse_chars rest))
                | _ \<Rightarrow> None)
             else
               (case unescape e of
                  None \<Rightarrow> None
                | Some u \<Rightarrow> map_option (apfst ((#) u)) (parse_chars es)))
      else if c < 0x20 then None
      else map_option (apfst ((#) c)) (parse_chars cs))"

definition digits1 :: "jsstring \<Rightarrow> (jsstring \<times> jsstring) option" where
  "digits1 s = (if takeWhile is_digit s = [] then None
                else Some (takeWhile is_digit s, dropWhile is_digit s))"

definition parse_int_part :: "jsstring \<Rightarrow> (jsstring \<times> jsstring) option" where
  "parse_int_part s =
     (case s of
        [] \<Rightarrow> None
      | c # cs \<Rightarrow>
          if c = cu CHR ''0'' then Some ([c], cs)
          else digits1 s)"

definition parse_frac :: "jsstring \<Rightarrow> (jsstring \<times> jsstring) option" where
  "parse_frac s =
     (case s of
        [] \<Rightarrow> Some ([], s)
      | c # cs \<Rightarrow>
          if c = cu CHR ''.'' then map_option (apfst ((#) c)) (digits1 cs)
          else Some ([], s))"

definition parse_exp :: "jsstring \<Rightarrow> (jsstring \<times> jsstring) option" where
  "parse_exp s =
     (case s of
        [] \<Rightarrow> Some ([], s)
      | c # cs \<Rightarrow>
          if c = cu CHR ''e'' \<or> c = cu CHR ''E'' then
            (case cs of
               [] \<Rightarrow> None
             | d # ds \<Rightarrow>
                 if d = cu CHR ''+'' \<or> d = cu CHR ''-''
                 then map_option (apfst (\<lambda>x. c # d # x)) (digits1 ds)
                 else map_option (apfst ((#) c)) (digits1 cs))
          else Some ([], s))"

definition parse_number :: "jsstring \<Rightarrow> (jsstring \<times> jsstring) option" where
  "parse_number s =
     (let (sign, s0) = (case s of [] \<Rightarrow> ([], s)
                        | c # cs \<Rightarrow> if c = cu CHR ''-'' then ([c], cs) else ([], s))
      in case parse_int_part s0 of
           None \<Rightarrow> None
         | Some (i, s1) \<Rightarrow>
             (case parse_frac s1 of
                None \<Rightarrow> None
              | Some (f, s2) \<Rightarrow>
                  (case parse_exp s2 of
                     None \<Rightarrow> None
                   | Some (e, s3) \<Rightarrow> Some (sign @ i @ f @ e, s3))))"

text \<open>
  The first argument bounds the depth of the calls, and the result is \<open>None\<close> when it is
  used up. \<open>JSON_parse\<close> starts from one more than the length of the text, and a larger
  bound changes nothing (\<open>JSON_parse_bound_is_enough\<close>).
\<close>

fun parse_value :: "nat \<Rightarrow> jsstring \<Rightarrow> (json \<times> jsstring) option"
  and parse_elements :: "nat \<Rightarrow> jsstring \<Rightarrow> (json list \<times> jsstring) option"
  and parse_members :: "nat \<Rightarrow> jsstring \<Rightarrow> ((jsstring \<times> json) list \<times> jsstring) option"
where
  "parse_value 0 s = None"
| "parse_value (Suc n) s =
     (case skip_ws s of
        [] \<Rightarrow> None
      | c # cs \<Rightarrow>
          if c = cu CHR ''{'' then
            (case skip_ws cs of
               [] \<Rightarrow> None
             | d # ds \<Rightarrow>
                 if d = cu CHR ''}'' then Some (JObject [], ds)
                 else map_option (apfst JObject) (parse_members n (d # ds)))
          else if c = cu CHR ''['' then
            (case skip_ws cs of
               [] \<Rightarrow> None
             | d # ds \<Rightarrow>
                 if d = cu CHR '']'' then Some (JArray [], ds)
                 else map_option (apfst JArray) (parse_elements n (d # ds)))
          else if c = 0x22 then map_option (apfst JString) (parse_chars cs)
          else if prefix (js ''null'') (c # cs) then Some (JNull, drop 4 (c # cs))
          else if prefix (js ''true'') (c # cs) then Some (JBoolean True, drop 4 (c # cs))
          else if prefix (js ''false'') (c # cs) then Some (JBoolean False, drop 5 (c # cs))
          else map_option (apfst JNumber) (parse_number (c # cs)))"
| "parse_elements 0 s = None"
| "parse_elements (Suc n) s =
     (case parse_value n s of
        None \<Rightarrow> None
      | Some (v, rest) \<Rightarrow>
          (case skip_ws rest of
             [] \<Rightarrow> None
           | c # cs \<Rightarrow>
               if c = cu CHR '','' then map_option (apfst ((#) v)) (parse_elements n cs)
               else if c = cu CHR '']'' then Some ([v], cs)
               else None))"
| "parse_members 0 s = None"
| "parse_members (Suc n) s =
     (case skip_ws s of
        [] \<Rightarrow> None
      | q # s1 \<Rightarrow>
          if q \<noteq> 0x22 then None
          else
            (case parse_chars s1 of
               None \<Rightarrow> None
             | Some (k, s2) \<Rightarrow>
                 (case skip_ws s2 of
                    [] \<Rightarrow> None
                  | colon # s3 \<Rightarrow>
                      if colon \<noteq> cu CHR '':'' then None
                      else
                        (case parse_value n s3 of
                           None \<Rightarrow> None
                         | Some (v, s4) \<Rightarrow>
                             (case skip_ws s4 of
                                [] \<Rightarrow> None
                              | c # cs \<Rightarrow>
                                  if c = cu CHR '','' then
                                    map_option (apfst ((#) (k, v))) (parse_members n cs)
                                  else if c = cu CHR ''}'' then Some ([(k, v)], cs)
                                  else None)))))"

definition JSON_parse :: "jsstring \<Rightarrow> json option" where
  "JSON_parse s =
     (case parse_value (Suc (length s)) s of
        None \<Rightarrow> None
      | Some (v, rest) \<Rightarrow> if skip_ws rest = [] then Some v else None)"

text \<open>
  \<open>QuoteJSONString\<close>: the short escapes, \<open>\u\<close> and four lower-case hexadecimal digits
  for the other control characters and for a surrogate without its partner.
\<close>

definition hex_digit :: "code_unit \<Rightarrow> code_unit" where
  "hex_digit d = (if d < 10 then 0x30 + d else 0x61 + (d - 10))"

definition unicode_escape :: "code_unit \<Rightarrow> jsstring" where
  "unicode_escape c =
     [0x5C, cu CHR ''u'', hex_digit (drop_bit 12 c), hex_digit (take_bit 4 (drop_bit 8 c)),
      hex_digit (take_bit 4 (drop_bit 4 c)), hex_digit (take_bit 4 c)]"

definition quote_unit :: "code_unit \<Rightarrow> jsstring" where
  "quote_unit c =
     (if c = 0x8 then [0x5C, cu CHR ''b'']
      else if c = 0x9 then [0x5C, cu CHR ''t'']
      else if c = 0xA then [0x5C, cu CHR ''n'']
      else if c = 0xC then [0x5C, cu CHR ''f'']
      else if c = 0xD then [0x5C, cu CHR ''r'']
      else if c = 0x22 then [0x5C, 0x22]
      else if c = 0x5C then [0x5C, 0x5C]
      else if c < 0x20 then unicode_escape c
      else [c])"

fun quote_units :: "jsstring \<Rightarrow> jsstring" where
  "quote_units [] = []"
| "quote_units (c # cs) =
     (if is_high_surrogate c then
        (case cs of
           [] \<Rightarrow> unicode_escape c
         | d # ds \<Rightarrow>
             if is_low_surrogate d then c # d # quote_units ds
             else unicode_escape c @ quote_units cs)
      else if is_low_surrogate c then unicode_escape c @ quote_units cs
      else quote_unit c @ quote_units cs)"

definition quote :: "jsstring \<Rightarrow> jsstring" where
  "quote s = 0x22 # quote_units s @ [0x22]"

fun join_comma :: "jsstring list \<Rightarrow> jsstring" where
  "join_comma [] = []"
| "join_comma [x] = x"
| "join_comma (x # y # ys) = x @ cu CHR '','' # join_comma (y # ys)"

fun JSON_stringify :: "json \<Rightarrow> jsstring" where
  "JSON_stringify JUndefined = []"
| "JSON_stringify JNull = js ''null''"
| "JSON_stringify (JBoolean b) = (if b then js ''true'' else js ''false'')"
| "JSON_stringify (JNumber n) = n"
| "JSON_stringify (JString s) = quote s"
| "JSON_stringify (JArray xs) =
     js ''['' @ join_comma (map (\<lambda>x. if x = JUndefined then js ''null'' else JSON_stringify x) xs)
     @ js '']''"
| "JSON_stringify (JObject kvs) =
     js ''{'' @ join_comma (map (\<lambda>kv. quote (fst kv) @ js '':'' @ JSON_stringify (snd kv))
                             (filter (\<lambda>kv. snd kv \<noteq> JUndefined) kvs))
     @ js ''}''"

text \<open>A constructor that refuses the addresses with a fragment.\<close>

definition no_fragment :: "jsstring \<Rightarrow> bool" where
  "no_fragment address = (cu CHR ''#'' \<notin> set address)"

section \<open>The specification's view of the frames\<close>

text \<open>
  The table of the message stream: a frame is a JSON object with a \<open>type\<close> tag and the
  payload of that tag, an ordered list for \<open>history\<close>, a message for \<open>new_message\<close>, a
  name for \<open>user_joined\<close> and \<open>user_left\<close>.
\<close>

datatype event =
    History "json list"
  | NewMessage json
  | UserJoined jsstring
  | UserLeft jsstring

definition decode :: "(jsstring \<Rightarrow> json option) \<Rightarrow> jsstring \<Rightarrow> event option" where
  "decode parse raw =
     (case parse raw of
        Some (JObject kvs) \<Rightarrow>
          (case get_prop (JObject kvs) (js ''type'') of
             JString t \<Rightarrow>
               if t = js ''history'' then
                 (case get_prop (JObject kvs) (js ''messages'') of
                    JArray ms \<Rightarrow> Some (History ms)
                  | _ \<Rightarrow> None)
               else if t = js ''new_message'' then
                 (case get_prop (JObject kvs) (js ''message'') of
                    JUndefined \<Rightarrow> None
                  | m \<Rightarrow> Some (NewMessage m))
               else if t = js ''user_joined'' then
                 (case get_prop (JObject kvs) (js ''username'') of
                    JString u \<Rightarrow> Some (UserJoined u)
                  | _ \<Rightarrow> None)
               else if t = js ''user_left'' then
                 (case get_prop (JObject kvs) (js ''username'') of
                    JString u \<Rightarrow> Some (UserLeft u)
                  | _ \<Rightarrow> None)
               else None
           | _ \<Rightarrow> None)
      | _ \<Rightarrow> None)"

definition well_formed :: "(jsstring \<Rightarrow> json option) \<Rightarrow> jsstring \<Rightarrow> bool" where
  "well_formed parse raw = (decode parse raw \<noteq> None)"

definition events :: "(jsstring \<Rightarrow> json option) \<Rightarrow> jsstring list \<Rightarrow> event list" where
  "events parse frames = List.map_filter (decode parse) frames"

text \<open>
  The log the specification expects: the payload of the last \<open>history\<close> frame (the log
  from before when there is none), then the payloads of the \<open>new_message\<close> frames after it.
\<close>

fun is_History :: "event \<Rightarrow> bool" where
  "is_History (History ms) = True"
| "is_History _ = False"

fun last_history :: "event list \<Rightarrow> json list option" where
  "last_history [] = None"
| "last_history (e # es) =
     (case last_history es of
        Some ms \<Rightarrow> Some ms
      | None \<Rightarrow> (case e of History ms \<Rightarrow> Some ms | _ \<Rightarrow> None))"

definition after_last_history :: "event list \<Rightarrow> event list" where
  "after_last_history es = rev (takeWhile (\<lambda>e. \<not> is_History e) (rev es))"

fun new_messages :: "event list \<Rightarrow> json list" where
  "new_messages [] = []"
| "new_messages (NewMessage m # es) = m # new_messages es"
| "new_messages (_ # es) = new_messages es"

definition spec_log :: "json list \<Rightarrow> event list \<Rightarrow> json list" where
  "spec_log before es =
     (case last_history es of None \<Rightarrow> before | Some ms \<Rightarrow> ms)
     @ new_messages (after_last_history es)"

text \<open>
  A frame is malformed when it is not JSON, or is a JSON object whose \<open>type\<close> is none of
  the four tags.
\<close>

definition unrecognized :: "(jsstring \<Rightarrow> json option) \<Rightarrow> jsstring \<Rightarrow> bool" where
  "unrecognized parse raw =
     (case parse raw of
        Some (JObject kvs) \<Rightarrow>
          get_prop (JObject kvs) (js ''type'')
            \<notin> set [JString (js ''history''), JString (js ''new_message''),
                     JString (js ''user_joined''), JString (js ''user_left'')]
      | _ \<Rightarrow> False)"

definition malformed :: "(jsstring \<Rightarrow> json option) \<Rightarrow> jsstring \<Rightarrow> bool" where
  "malformed parse raw = (parse raw = None \<or> unrecognized parse raw)"

text \<open>A frame that is JSON and carries the tag \<open>t\<close>; the member \<open>k\<close> of a frame.\<close>

definition tagged :: "(jsstring \<Rightarrow> json option) \<Rightarrow> jsstring \<Rightarrow> string \<Rightarrow> bool" where
  "tagged parse raw t =
     (case parse raw of
        None \<Rightarrow> False
      | Some data \<Rightarrow> get_prop data (js ''type'') = JString (js t))"

definition payload :: "(jsstring \<Rightarrow> json option) \<Rightarrow> jsstring \<Rightarrow> string \<Rightarrow> json" where
  "payload parse raw k =
     (case parse raw of
        None \<Rightarrow> JUndefined
      | Some data \<Rightarrow> get_prop data (js k))"

text \<open>
  A message record has an author, a content that is not blank, and a time stamp; its
  identifier is optional.
\<close>

definition is_Message :: "json \<Rightarrow> bool" where
  "is_Message v =
     (case v of
        JObject kvs \<Rightarrow>
          (case get_prop v (js ''username'') of JString u \<Rightarrow> True | _ \<Rightarrow> False)
          \<and> (case get_prop v (js ''content'') of JString c \<Rightarrow> trim c \<noteq> [] | _ \<Rightarrow> False)
          \<and> get_prop v (js ''timestamp'') \<noteq> JUndefined
      | _ \<Rightarrow> False)"

definition is_message_log :: "json \<Rightarrow> bool" where
  "is_message_log l = (case l of JArray xs \<Rightarrow> list_all is_Message xs | _ \<Rightarrow> False)"

text \<open>The requests among the effects.\<close>

fun requests :: "effect list \<Rightarrow> request list" where
  "requests [] = []"
| "requests (Http r # es) = r # requests es"
| "requests (_ # es) = requests es"

text \<open>
  The two requests of \<open>joinChat\<close> and the address of \<open>connectWebSocket\<close>, by name.
\<close>

definition lookup_request :: "app \<Rightarrow> request" where
  "lookup_request st = Get (js ''/users/'' @ trim (username st))"

definition create_request :: "app \<Rightarrow> request" where
  "create_request st = Post (js ''/users'') [(js ''username'', trim (username st))]"

definition ws_address :: "jsstring option \<Rightarrow> jsstring \<Rightarrow> jsstring" where
  "ws_address env name =
     (if prefix (js ''https'') (API_URL env) then js ''wss'' else js ''ws'')
     @ js ''://'' @ WS_URL env @ js ''/ws/'' @ name"

section \<open>A session\<close>

text \<open>Frames of a session, for running the handlers on.\<close>

definition alice_message :: json where
  "alice_message =
     JObject [(js ''id'', JNumber (js ''7'')), (js ''username'', JString (js ''alice'')),
              (js ''content'', JString (js ''hello'')),
              (js ''timestamp'', JString (js ''2024-01-01T00:00:00Z''))]"

definition bob_message :: json where
  "bob_message =
     JObject [(js ''id'', JNumber (js ''1'')), (js ''username'', JString (js ''bob'')),
              (js ''content'', JString (js ''hi'')),
              (js ''timestamp'', JString (js ''2024-01-01T00:00:00Z''))]"

definition frame_history :: jsstring where
  \<open>frame_history =
     js ''{"type":"history","messages":[{"id":7,"username":"alice","content":"hello","timestamp":"2024-01-01T00:00:00Z"}]}''\<close>

definition frame_history_empty :: jsstring where
  \<open>frame_history_empty = js ''{"type":"history","messages":[]}''\<close>

definition frame_bob :: jsstring where
  \<open>frame_bob =
     js ''{"type":"new_message","message":{"id":1,"username":"bob","content":"hi","timestamp":"2024-01-01T00:00:00Z"}}''\<close>

definition frame_joined :: jsstring where
  \<open>frame_joined = js ''{"type":"user_joined","username":"carol"}''\<close>

definition frame_left :: jsstring where
  \<open>frame_left = js ''{"type":"user_left","username":"carol"}''\<close>

definition frame_unknown :: jsstring where
  \<open>frame_unknown = js ''{"type":"unknown"}''\<close>

definition frame_invalid :: jsstring where
  \<open>frame_invalid = js ''{oops''\<close>

definition frame_history_bare :: jsstring where
  \<open>frame_history_bare = js ''{"type":"history"}''\<close>

definition frame_new_message_bare :: jsstring where
  \<open>frame_new_message_bare = js ''{"type":"new_message"}''\<close>

definition session :: "jsstring list" where
  "session = [frame_bob, frame_history, frame_joined, frame_bob, frame_left]"

text \<open>A state of the chat view: joined as alice, the socket open, a draft in the input.\<close>

definition chatting :: app where
  "chatting =
     \<lparr>username = js ''alice'', isJoined = True, messages = JArray [alice_message],
      inputMessage = js '' hello '', socket = Some (js ''ws://localhost:8000/ws/alice''),
      isConnected = True,
      effects = [Http (Get (js ''/users/alice'')), WsOpen (js ''ws://localhost:8000/ws/alice'')]\<rparr>"

text \<open>
  Directories: one that knows the name, one that does not and registers it, one that does not
  and fails to register it, one that cannot be reached. \<open>typed name\<close> is the join form
  with \<open>name\<close> in its field.
\<close>

definition known_user :: "request \<Rightarrow> axios_result" where
  "known_user r = Fulfilled"

definition new_user :: "request \<Rightarrow> axios_result" where
  "new_user r = (case r of Get path \<Rightarrow> Rejected (Some 404) | Post path params \<Rightarrow> Fulfilled)"

definition create_fails :: "request \<Rightarrow> axios_result" where
  "create_fails r =
     (case r of Get path \<Rightarrow> Rejected (Some 404) | Post path params \<Rightarrow> Rejected (Some 500))"

definition directory_down :: "request \<Rightarrow> axios_result" where
  "directory_down r = Rejected None"

definition typed :: "string \<Rightarrow> app" where
  "typed name = initial\<lparr>username := js name\<rparr>"

section \<open>The bound of the parser\<close>

lemma fuel_mono_step:
  "(\<forall>s r. parse_value n s = Some r \<longrightarrow> parse_value (Suc n) s = Some r)
   \<and> (\<forall>s r. parse_elements n s = Some r \<longrightarrow> parse_elements (Suc n) s = Some r)
   \<and> (\<forall>s r. parse_members n s = Some r \<longrightarrow> parse_members (Suc n) s = Some r)"
proof (induction n)
  case 0
  show ?case by simp
next
  case (Suc n)
  from Suc have v: "\<And>s r. parse_value n s = Some r \<Longrightarrow> parse_value (Suc n) s = Some r"
    and e: "\<And>s r. parse_elements n s = Some r \<Longrightarrow> parse_elements (Suc n) s = Some r"
    and m: "\<And>s r. parse_members n s = Some r \<Longrightarrow> parse_members (Suc n) s = Some r"
    by blast+
  have "parse_value (Suc (Suc n)) s = Some r" if "parse_value (Suc n) s = Some r" for s r
    using that
    apply (subst parse_value.simps(2))
    apply (subst (asm) parse_value.simps(2))
    apply (auto simp del: parse_value.simps parse_elements.simps parse_members.simps
                split: list.splits if_splits dest: e m)
    done
  moreover have "parse_elements (Suc (Suc n)) s = Some r" if p: "parse_elements (Suc n) s = Some r" for s r
  proof -
    from p obtain x rest where pv: "parse_value n s = Some (x, rest)"
      by (cases "parse_value n s") auto
    note pv' = v[OF pv]
    from p show ?thesis
      apply (subst parse_elements.simps(2))
      apply (subst (asm) parse_elements.simps(2))
      apply (simp only: pv pv' option.case prod.case)
      apply (auto simp del: parse_value.simps parse_elements.simps parse_members.simps
                  split: list.splits if_splits dest: e)
      done
  qed
  moreover have "parse_members (Suc (Suc n)) s = Some r" if p: "parse_members (Suc n) s = Some r" for s r
  proof -
    from p obtain q s1 where a: "skip_ws s = q # s1" and q: "q = 0x22"
      by (subst (asm) parse_members.simps(2)) (auto split: list.splits if_splits)
    from p a q obtain k s2 where b: "parse_chars s1 = Some (k, s2)"
      by (subst (asm) parse_members.simps(2)) (auto split: option.splits)
    from p a q b obtain s3 where c: "skip_ws s2 = cu CHR '':'' # s3"
      by (subst (asm) parse_members.simps(2)) (auto split: list.splits if_splits)
    from p a q b c obtain x s4 where pv: "parse_value n s3 = Some (x, s4)"
      by (subst (asm) parse_members.simps(2)) (auto split: option.splits)
    note pv' = v[OF pv]
    from p show ?thesis
      apply (subst parse_members.simps(2))
      apply (subst (asm) parse_members.simps(2))
      apply (simp only: a q b c pv pv' option.case prod.case list.case if_True if_False simp_thms)
      apply (auto simp del: parse_value.simps parse_elements.simps parse_members.simps
                  split: list.splits if_splits dest: m)
      done
  qed
  ultimately show ?case by blast
qed

lemma fuel_mono_all:
  "n \<le> m \<Longrightarrow>
     (\<forall>s r. parse_value n s = Some r \<longrightarrow> parse_value m s = Some r)
     \<and> (\<forall>s r. parse_elements n s = Some r \<longrightarrow> parse_elements m s = Some r)
     \<and> (\<forall>s r. parse_members n s = Some r \<longrightarrow> parse_members m s = Some r)"
proof (induction m)
  case 0
  then have "n = 0" by simp
  then show ?case by blast
next
  case (Suc m)
  show ?case
  proof (cases "n = Suc m")
    case True
    then show ?thesis by blast
  next
    case False
    with Suc.prems have "n \<le> m" by simp
    from Suc.IH[OF this] fuel_mono_step[of m] show ?thesis by blast
  qed
qed

lemma fuel_mono:
  assumes "n \<le> m"
  shows "parse_value n s = Some r \<Longrightarrow> parse_value m s = Some r"
    and "parse_elements n s = Some re \<Longrightarrow> parse_elements m s = Some re"
    and "parse_members n s = Some rm \<Longrightarrow> parse_members m s = Some rm"
  using fuel_mono_all[OF assms] by blast+

lemma skip_ws_Cons: "skip_ws s = c # cs \<Longrightarrow> length cs < length s"
proof -
  assume a: "skip_ws s = c # cs"
  have "length (skip_ws s) \<le> length s"
    by (simp add: skip_ws_def length_dropWhile_le)
  with a show ?thesis by simp
qed

lemma skip_ws_le: "length (skip_ws s) \<le> length s"
  by (simp add: skip_ws_def length_dropWhile_le)

lemma parse_chars_length: "parse_chars s = Some (str, rest) \<Longrightarrow> length rest < length s"
proof (induction s arbitrary: str rest rule: length_induct)
  case (1 s)
  show ?case
  proof (cases s)
    case Nil
    with 1(2) show ?thesis by simp
  next
    case (Cons c cs)
    have ih: "parse_chars t = Some (x, y) \<Longrightarrow> length t \<le> length cs \<Longrightarrow> length y < length t"
      for t x y
      using 1(1) Cons by simp
    from 1(2) show ?thesis
      unfolding Cons
      apply (subst (asm) parse_chars.simps(2))
      apply (auto simp del: parse_chars.simps split: if_splits list.splits option.splits
                  dest!: ih)
      done
  qed
qed

lemma digits1_length: "digits1 s = Some (d, rest) \<Longrightarrow> length rest < length s"
proof -
  assume a: "digits1 s = Some (d, rest)"
  have sum: "length (takeWhile is_digit s) + length (dropWhile is_digit s) = length s"
    by (metis length_append takeWhile_dropWhile_id)
  from a have pos: "0 < length (takeWhile is_digit s)" and r: "rest = dropWhile is_digit s"
    by (auto simp: digits1_def split: if_splits)
  show ?thesis unfolding r using sum pos by linarith
qed

lemma parse_number_length: "parse_number s = Some (l, rest) \<Longrightarrow> length rest < length s"
proof -
  assume a: "parse_number s = Some (l, rest)"
  have i: "parse_int_part t = Some (x, u) \<Longrightarrow> length u < length t" for t x u
    by (auto simp: parse_int_part_def split: list.splits if_splits dest: digits1_length)
  have f: "parse_frac t = Some (x, u) \<Longrightarrow> length u \<le> length t" for t x u
    by (auto simp: parse_frac_def split: list.splits if_splits dest!: digits1_length)
  have e: "parse_exp t = Some (x, u) \<Longrightarrow> length u \<le> length t" for t x u
    by (auto simp: parse_exp_def split: list.splits if_splits dest!: digits1_length)
  from a show ?thesis
    by (auto simp: parse_number_def split: list.splits if_splits option.splits prod.splits
             dest!: i f e)
qed

lemma parse_value_Suc_cases:
  assumes "parse_value (Suc n) s = Some (v, rest)"
  obtains
    (members) c cs d ds ms where "skip_ws s = c # cs" "c = cu CHR ''{''" "skip_ws cs = d # ds"
      "d \<noteq> cu CHR ''}''" "parse_members n (d # ds) = Some (ms, rest)" "v = JObject ms"
  | (elements) c cs d ds vs where "skip_ws s = c # cs" "c = cu CHR ''[''" "skip_ws cs = d # ds"
      "d \<noteq> cu CHR '']''" "parse_elements n (d # ds) = Some (vs, rest)" "v = JArray vs"
  | (flat) "\<forall>m. parse_value (Suc m) s = Some (v, rest)" "length rest < length s"
proof -
  from assms obtain c cs where s: "skip_ws s = c # cs"
    by (subst (asm) parse_value.simps(2)) (auto split: list.splits)
  have ls: "length cs < length s"
    using s by (rule skip_ws_Cons)
  show thesis
  proof (cases "c = cu CHR ''{'' \<or> c = cu CHR ''[''")
    case True
    with assms s obtain d ds where d: "skip_ws cs = d # ds"
      by (subst (asm) parse_value.simps(2)) (auto split: list.splits if_splits)
    have ld: "length ds < length cs"
      using d by (rule skip_ws_Cons)
    show ?thesis
    proof (cases "c = cu CHR ''{''")
      case brace: True
      show ?thesis
      proof (cases "d = cu CHR ''}''")
        case True
        with assms s d brace have r: "v = JObject []" "rest = ds"
          by (simp_all add: parse_value.simps(2))
        have "\<forall>m. parse_value (Suc m) s = Some (v, rest)"
          using s d brace True r by (simp add: parse_value.simps(2))
        moreover have "length rest < length s"
          using r ld ls by simp
        ultimately show ?thesis by (rule flat)
      next
        case False
        with assms s d brace obtain ms where "parse_members n (d # ds) = Some (ms, rest)"
          "v = JObject ms"
          by (auto simp add: parse_value.simps(2))
        with s brace d False show ?thesis by (rule members)
      qed
    next
      case nobrace: False
      with True have bracket: "c = cu CHR ''[''" by simp
      have nb: "cu CHR ''['' \<noteq> cu CHR ''{''" by (simp add: cu_def)
      show ?thesis
      proof (cases "d = cu CHR '']''")
        case True
        with assms s d bracket nb have r: "v = JArray []" "rest = ds"
          by (simp_all add: parse_value.simps(2))
        have "\<forall>m. parse_value (Suc m) s = Some (v, rest)"
          using s d bracket nb True r by (simp add: parse_value.simps(2))
        moreover have "length rest < length s"
          using r ld ls by simp
        ultimately show ?thesis by (rule flat)
      next
        case False
        with assms s d bracket nb obtain vs where "parse_elements n (d # ds) = Some (vs, rest)"
          "v = JArray vs"
          by (auto simp add: parse_value.simps(2))
        with s bracket d False show ?thesis by (rule elements)
      qed
    qed
  next
    case False
    then have n: "c \<noteq> cu CHR ''{''" "c \<noteq> cu CHR ''[''" by simp_all
    have eq: "parse_value (Suc m) s = parse_value (Suc n) s" for m
      using s n by (simp add: parse_value.simps(2))
    have "length rest \<le> length cs"
      using assms s n
      by (auto simp add: parse_value.simps(2) split: if_splits
               dest!: parse_chars_length parse_number_length)
    with ls have l: "length rest < length s" by simp
    have "\<forall>m. parse_value (Suc m) s = Some (v, rest)"
      using eq assms by simp
    then show ?thesis using l by (rule flat)
  qed
qed


lemma fuel_consumed:
  "(\<forall>s v rest. parse_value n s = Some (v, rest) \<longrightarrow>
      length rest < length s \<and> parse_value (length s - length rest) s = Some (v, rest))
   \<and> (\<forall>s vs rest. parse_elements n s = Some (vs, rest) \<longrightarrow>
      length rest < length s \<and> parse_elements (length s - length rest) s = Some (vs, rest))
   \<and> (\<forall>s ms rest. parse_members n s = Some (ms, rest) \<longrightarrow>
      length rest < length s \<and> parse_members (length s - length rest) s = Some (ms, rest))"
proof (induction n)
  case 0
  show ?case by simp
next
  case (Suc n)
  from Suc have v: "\<And>s v rest. parse_value n s = Some (v, rest) \<Longrightarrow>
      length rest < length s \<and> parse_value (length s - length rest) s = Some (v, rest)"
    and e: "\<And>s vs rest. parse_elements n s = Some (vs, rest) \<Longrightarrow>
      length rest < length s \<and> parse_elements (length s - length rest) s = Some (vs, rest)"
    and m: "\<And>s ms rest. parse_members n s = Some (ms, rest) \<Longrightarrow>
      length rest < length s \<and> parse_members (length s - length rest) s = Some (ms, rest)"
    by blast+
  have V: "length rest < length s \<and> parse_value (length s - length rest) s = Some (x, rest)"
    if p: "parse_value (Suc n) s = Some (x, rest)" for s x rest
    using p
  proof (cases rule: parse_value_Suc_cases)
    case (members c cs d ds ms)
    from m[OF members(5)] have l: "length rest < length (d # ds)"
      and q: "parse_members (length (d # ds) - length rest) (d # ds) = Some (ms, rest)"
      by simp_all
    from skip_ws_Cons[OF members(1)] skip_ws_le[of cs] members(3)
    have "length (d # ds) < length s" by simp
    with l obtain k where k: "length s - length rest = Suc k"
      and le: "length (d # ds) - length rest \<le> k"
      by (cases "length s - length rest") auto
    from fuel_mono(3)[OF le q] have "parse_members k (d # ds) = Some (ms, rest)" .
    with members have "parse_value (Suc k) s = Some (x, rest)"
      by (simp add: parse_value.simps(2))
    with k l \<open>length (d # ds) < length s\<close> show ?thesis by simp
  next
    case (elements c cs d ds vs)
    have nb: "cu CHR ''['' \<noteq> cu CHR ''{''" by (simp add: cu_def)
    from e[OF elements(5)] have l: "length rest < length (d # ds)"
      and q: "parse_elements (length (d # ds) - length rest) (d # ds) = Some (vs, rest)"
      by simp_all
    from skip_ws_Cons[OF elements(1)] skip_ws_le[of cs] elements(3)
    have "length (d # ds) < length s" by simp
    with l obtain k where k: "length s - length rest = Suc k"
      and le: "length (d # ds) - length rest \<le> k"
      by (cases "length s - length rest") auto
    from fuel_mono(2)[OF le q] have "parse_elements k (d # ds) = Some (vs, rest)" .
    with elements nb have "parse_value (Suc k) s = Some (x, rest)"
      by (simp add: parse_value.simps(2))
    with k l \<open>length (d # ds) < length s\<close> show ?thesis by simp
  next
    case flat
    then obtain k where "length s - length rest = Suc k"
      by (cases "length s - length rest") auto
    with flat show ?thesis by simp
  qed
  have E: "length rest < length s \<and> parse_elements (length s - length rest) s = Some (xs, rest)"
    if p: "parse_elements (Suc n) s = Some (xs, rest)" for s xs rest
  proof -
    from p obtain x r1 where pv: "parse_value n s = Some (x, r1)"
      by (cases "parse_value n s") auto
    from v[OF pv] have l1: "length r1 < length s"
      and q1: "parse_value (length s - length r1) s = Some (x, r1)"
      by simp_all
    from p pv obtain c cs where sk: "skip_ws r1 = c # cs"
      by (auto simp: parse_elements.simps(2) split: list.splits)
    from skip_ws_Cons[OF sk] have l2: "length cs < length r1" .
    show ?thesis
    proof (cases "c = cu CHR '',''")
      case True
      with p pv sk obtain ys where pe: "parse_elements n cs = Some (ys, rest)" and xs: "xs = x # ys"
        by (auto simp: parse_elements.simps(2))
      from e[OF pe] have l3: "length rest < length cs"
        and q3: "parse_elements (length cs - length rest) cs = Some (ys, rest)"
        by simp_all
      from l1 l2 l3 obtain k where k: "length s - length rest = Suc k"
        and le1: "length s - length r1 \<le> k" and le3: "length cs - length rest \<le> k"
        by (cases "length s - length rest") auto
      from fuel_mono(1)[OF le1 q1] fuel_mono(2)[OF le3 q3] sk True xs
      have "parse_elements (Suc k) s = Some (xs, rest)"
        by (simp add: parse_elements.simps(2))
      with k l1 l2 l3 show ?thesis by simp
    next
      case False
      with p pv sk have c: "c = cu CHR '']''" and r: "rest = cs" "xs = [x]"
        by (auto simp: parse_elements.simps(2) split: if_splits)
      from l1 l2 r obtain k where k: "length s - length rest = Suc k"
        and le1: "length s - length r1 \<le> k"
        by (cases "length s - length rest") auto
      from fuel_mono(1)[OF le1 q1] sk False c r
      have "parse_elements (Suc k) s = Some (xs, rest)"
        by (simp add: parse_elements.simps(2))
      with k l1 l2 r show ?thesis by simp
    qed
  qed
  have M: "length rest < length s \<and> parse_members (length s - length rest) s = Some (xs, rest)"
    if p: "parse_members (Suc n) s = Some (xs, rest)" for s xs rest
  proof -
    from p obtain q s1 where a: "skip_ws s = q # s1" and q: "q = 0x22"
      by (subst (asm) parse_members.simps(2)) (auto split: list.splits if_splits)
    from p a q obtain key s2 where b: "parse_chars s1 = Some (key, s2)"
      by (subst (asm) parse_members.simps(2)) (auto split: option.splits)
    from p a q b obtain s3 where c: "skip_ws s2 = cu CHR '':'' # s3"
      by (subst (asm) parse_members.simps(2)) (auto split: list.splits if_splits)
    from p a q b c obtain x s4 where pv: "parse_value n s3 = Some (x, s4)"
      by (subst (asm) parse_members.simps(2)) (auto split: option.splits)
    from p a q b c pv obtain d ds where sk: "skip_ws s4 = d # ds"
      by (subst (asm) parse_members.simps(2)) (auto split: list.splits)
    from skip_ws_Cons[OF a] parse_chars_length[OF b] skip_ws_Cons[OF c]
    have l0: "length s3 < length s" by simp
    from v[OF pv] have l1: "length s4 < length s3"
      and q1: "parse_value (length s3 - length s4) s3 = Some (x, s4)"
      by simp_all
    from skip_ws_Cons[OF sk] have l2: "length ds < length s4" .
    show ?thesis
    proof (cases "d = cu CHR '',''")
      case True
      with p a q b c pv sk obtain ys where pm: "parse_members n ds = Some (ys, rest)"
        and xs: "xs = (key, x) # ys"
        by (subst (asm) parse_members.simps(2)) auto
      from m[OF pm] have l3: "length rest < length ds"
        and q3: "parse_members (length ds - length rest) ds = Some (ys, rest)"
        by simp_all
      from l0 l1 l2 l3 obtain k where k: "length s - length rest = Suc k"
        and le1: "length s3 - length s4 \<le> k" and le3: "length ds - length rest \<le> k"
        by (cases "length s - length rest") auto
      from fuel_mono(1)[OF le1 q1] fuel_mono(3)[OF le3 q3] a q b c sk True xs
      have "parse_members (Suc k) s = Some (xs, rest)"
        by (simp add: parse_members.simps(2))
      with k l0 l1 l2 l3 show ?thesis by simp
    next
      case False
      with p a q b c pv sk have r: "rest = ds" "xs = [(key, x)]" and cl: "d = cu CHR ''}''"
        by (auto simp: parse_members.simps(2) split: if_splits)
      from l0 l1 l2 r obtain k where k: "length s - length rest = Suc k"
        and le1: "length s3 - length s4 \<le> k"
        by (cases "length s - length rest") auto
      from fuel_mono(1)[OF le1 q1] a q b c sk False cl r
      have "parse_members (Suc k) s = Some (xs, rest)"
        by (simp add: parse_members.simps(2))
      with k l0 l1 l2 r show ?thesis by simp
    qed
  qed
  from V E M show ?case by blast
qed

text \<open>
  A bound above the length of the text gives what \<open>JSON_parse\<close> gives: the parser never
  answers \<open>None\<close> for want of depth.
\<close>

lemma JSON_parse_bound_is_enough:
  assumes "length s < n"
  shows "(case parse_value n s of
            None \<Rightarrow> None
          | Some (v, rest) \<Rightarrow> if skip_ws rest = [] then Some v else None) = JSON_parse s"
proof -
  have "parse_value n s = parse_value (Suc (length s)) s"
  proof (cases "parse_value n s")
    case None
    show ?thesis
    proof (cases "parse_value (Suc (length s)) s")
      case None
      with \<open>parse_value n s = None\<close> show ?thesis by simp
    next
      case (Some r)
      from assms have "Suc (length s) \<le> n" by simp
      from fuel_mono(1)[OF this Some] None show ?thesis by simp
    qed
  next
    case (Some r)
    obtain v rest where r: "r = (v, rest)" by (cases r)
    from fuel_consumed[of n] Some r
    have l: "length rest < length s"
      and q: "parse_value (length s - length rest) s = Some (v, rest)"
      by blast+
    have "length s - length rest \<le> Suc (length s)" by simp
    from fuel_mono(1)[OF this q] Some r show ?thesis by simp
  qed
  then show ?thesis by (simp add: JSON_parse_def)
qed

section \<open>Frames in order\<close>

lemma tags_distinct:
  "js ''history'' \<noteq> js ''new_message''" "js ''history'' \<noteq> js ''user_joined''"
  "js ''history'' \<noteq> js ''user_left''" "js ''new_message'' \<noteq> js ''user_joined''"
  "js ''new_message'' \<noteq> js ''user_left''" "js ''user_joined'' \<noteq> js ''user_left''"
  by (simp_all add: js_def cu_def)

lemma decode_Some_obtain:
  assumes "decode parse raw = Some e"
  obtains kvs t where "parse raw = Some (JObject kvs)"
    and "get_prop (JObject kvs) (js ''type'') = JString t"
proof -
  from assms obtain data where d: "parse raw = Some data"
    by (cases "parse raw") (simp_all add: decode_def)
  with assms obtain kvs where k: "data = JObject kvs"
    by (cases data) (simp_all add: decode_def)
  with assms d obtain t where "get_prop (JObject kvs) (js ''type'') = JString t"
    by (cases "get_prop (JObject kvs) (js ''type'')") (simp_all add: decode_def)
  with d k that show thesis by blast
qed

lemma decode_unfold:
  assumes "parse raw = Some (JObject kvs)" and "get_prop (JObject kvs) (js ''type'') = JString t"
  shows "decode parse raw = 
               (if t = js ''history'' then
                 (case get_prop (JObject kvs) (js ''messages'') of
                    JArray ms \<Rightarrow> Some (History ms)
                  | _ \<Rightarrow> None)
               else if t = js ''new_message'' then
                 (case get_prop (JObject kvs) (js ''message'') of
                    JUndefined \<Rightarrow> None
                  | m \<Rightarrow> Some (NewMessage m))
               else if t = js ''user_joined'' then
                 (case get_prop (JObject kvs) (js ''username'') of
                    JString u \<Rightarrow> Some (UserJoined u)
                  | _ \<Rightarrow> None)
               else if t = js ''user_left'' then
                 (case get_prop (JObject kvs) (js ''username'') of
                    JString u \<Rightarrow> Some (UserLeft u)
                  | _ \<Rightarrow> None)
               else None)"
  using assms unfolding decode_def by simp

lemma onmessage_unfold:
  assumes "parse raw = Some (JObject kvs)" and "get_prop (JObject kvs) (js ''type'') = JString t"
  shows "onmessage parse raw st = 
          (if t = js ''history'' then
            Inr (st\<lparr>messages := get_prop (JObject kvs) (js ''messages'')\<rparr>)
          else if t = js ''new_message'' then
            (case spread (messages st) of
               Inl e \<Rightarrow> Inl e
             | Inr prev \<Rightarrow> Inr (st\<lparr>messages := JArray (prev @ [get_prop (JObject kvs) (js ''message'')])\<rparr>))
          else if t = js ''user_joined'' then
            (if to_string_throws (get_prop (JObject kvs) (js ''username'')) then Inl TypeError else Inr st)
          else if t = js ''user_left'' then
            (if to_string_throws (get_prop (JObject kvs) (js ''username'')) then Inl TypeError else Inr st)
          else Inr st)"
  using assms unfolding onmessage_def by simp

lemma deliver_History:
  assumes "decode parse raw = Some (History ms)"
  shows "deliver parse st raw = st\<lparr>messages := JArray ms\<rparr>"
proof -
  from assms(1) obtain kvs t where p: "parse raw = Some (JObject kvs)"
    and t: "get_prop (JObject kvs) (js ''type'') = JString t"
    by (rule decode_Some_obtain)
  from assms have "t = js ''history'' \<and> get_prop (JObject kvs) (js ''messages'') = JArray ms"
    unfolding decode_unfold[of parse raw kvs t, OF p t] by (simp split: if_splits json.splits)
  then show ?thesis
    by (simp add: deliver_def onmessage_unfold[of parse raw kvs t, OF p t])
qed

lemma deliver_NewMessage:
  assumes "decode parse raw = Some (NewMessage m)" and "messages st = JArray xs"
  shows "deliver parse st raw = st\<lparr>messages := JArray (xs @ [m])\<rparr>"
proof -
  from assms(1) obtain kvs t where p: "parse raw = Some (JObject kvs)"
    and t: "get_prop (JObject kvs) (js ''type'') = JString t"
    by (rule decode_Some_obtain)
  from assms(1) have "t = js ''new_message'' \<and> get_prop (JObject kvs) (js ''message'') = m"
    unfolding decode_unfold[of parse raw kvs t, OF p t] by (simp split: if_splits json.splits)
  then show ?thesis using assms(2)
    by (simp add: deliver_def onmessage_unfold[of parse raw kvs t, OF p t] tags_distinct tags_distinct[symmetric])
qed

lemma deliver_presence:
  assumes "decode parse raw = Some (UserJoined u) \<or> decode parse raw = Some (UserLeft u)"
  shows "deliver parse st raw = st"
proof -
  from assms obtain kvs t where p: "parse raw = Some (JObject kvs)"
    and t: "get_prop (JObject kvs) (js ''type'') = JString t"
    by (auto elim: decode_Some_obtain)
  from assms have "t = js ''user_joined'' \<or> t = js ''user_left''"
    unfolding decode_unfold[of parse raw kvs t, OF p t] by (simp split: if_splits json.splits)
  then show ?thesis
    by (auto simp: deliver_def onmessage_unfold[of parse raw kvs t, OF p t] tags_distinct tags_distinct[symmetric])
qed


lemma process_frames_Nil: "process_frames parse st [] = st"
  by (simp add: process_frames_def)

lemma process_frames_Cons:
  "process_frames parse st (raw # frames) = process_frames parse (deliver parse st raw) frames"
  by (simp add: process_frames_def)

lemma process_frames_snoc:
  "process_frames parse st (frames @ [raw]) = deliver parse (process_frames parse st frames) raw"
  by (simp add: process_frames_def)

lemma last_history_snoc:
  "last_history (es @ [e]) = (case e of History ms \<Rightarrow> Some ms | _ \<Rightarrow> last_history es)"
  by (induction es) (auto split: option.splits event.splits)

lemma after_last_history_snoc:
  "after_last_history (es @ [e]) = (if is_History e then [] else after_last_history es @ [e])"
  by (simp add: after_last_history_def)

lemma new_messages_append: "new_messages (xs @ ys) = new_messages xs @ new_messages ys"
  by (induction xs rule: new_messages.induct) auto

lemma spec_log_snoc_History: "spec_log before (es @ [History ms]) = ms"
  by (simp add: spec_log_def last_history_snoc after_last_history_snoc)

lemma spec_log_snoc_NewMessage: "spec_log before (es @ [NewMessage m]) = spec_log before es @ [m]"
  by (simp add: spec_log_def last_history_snoc after_last_history_snoc new_messages_append)

lemma spec_log_snoc_presence:
  "spec_log before (es @ [UserJoined u]) = spec_log before es"
  "spec_log before (es @ [UserLeft u]) = spec_log before es"
  by (simp_all add: spec_log_def last_history_snoc after_last_history_snoc new_messages_append)

lemma events_snoc:
  "decode parse raw = Some e \<Longrightarrow> events parse (frames @ [raw]) = events parse frames @ [e]"
  by (simp add: events_def map_filter_def)

lemma log_after_frames:
  assumes "\<forall>raw \<in> set frames. well_formed parse raw"
    and "last_history (events parse frames) \<noteq> None \<or> messages st = JArray before"
  shows "messages (process_frames parse st frames) = JArray (spec_log before (events parse frames))"
  using assms
proof (induction frames rule: rev_induct)
  case Nil
  then show ?case by (simp add: process_frames_Nil events_def map_filter_def spec_log_def after_last_history_def)
next
  case (snoc raw frames)
  from snoc.prems(1) obtain e where e: "decode parse raw = Some e"
    by (auto simp: well_formed_def)
  note ev = events_snoc[OF e, of frames]
  from snoc.prems(1) have wf: "\<forall>raw \<in> set frames. well_formed parse raw" by simp
  show ?case
  proof (cases e)
    case (History ms)
    with e show ?thesis
      by (simp add: process_frames_snoc ev deliver_History spec_log_snoc_History)
  next
    case (NewMessage m)
    with snoc.prems(2) have "last_history (events parse frames) \<noteq> None \<or> messages st = JArray before"
      by (simp add: ev last_history_snoc)
    with wf have "messages (process_frames parse st frames) = JArray (spec_log before (events parse frames))"
      by (rule snoc.IH)
    with e NewMessage show ?thesis
      by (simp add: process_frames_snoc ev deliver_NewMessage spec_log_snoc_NewMessage)
  next
    case (UserJoined u)
    with snoc.prems(2) have "last_history (events parse frames) \<noteq> None \<or> messages st = JArray before"
      by (simp add: ev last_history_snoc)
    with wf have "messages (process_frames parse st frames) = JArray (spec_log before (events parse frames))"
      by (rule snoc.IH)
    with e UserJoined show ?thesis
      by (simp add: process_frames_snoc ev deliver_presence spec_log_snoc_presence)
  next
    case (UserLeft u)
    with snoc.prems(2) have "last_history (events parse frames) \<noteq> None \<or> messages st = JArray before"
      by (simp add: ev last_history_snoc)
    with wf have "messages (process_frames parse st frames) = JArray (spec_log before (events parse frames))"
      by (rule snoc.IH)
    with e UserLeft show ?thesis
      by (simp add: process_frames_snoc ev deliver_presence spec_log_snoc_presence)
  qed
qed

lemma deliver_messages_only:
  assumes "messages s1 = messages s2"
  shows "messages (deliver parse s1 raw) = messages (deliver parse s2 raw)"
  using assms by (auto simp: deliver_def onmessage_def split: option.splits sum.splits)

lemma deliver_history:
  assumes "tagged parse raw ''history''"
  shows "deliver parse st raw = st\<lparr>messages := payload parse raw ''messages''\<rparr>"
  using assms
  by (auto simp: tagged_def payload_def deliver_def onmessage_def split: option.splits)

text \<open>
  C1. For every sequence of well-formed frames, the log after the handler has processed them
  is the payload list of the last \<open>history\<close> frame, in its order, followed by the
  \<open>message\<close> payload of every \<open>new_message\<close> frame that arrived after it, in the order
  of arrival. When no \<open>history\<close> frame has arrived the messages are appended to the log
  from before, which is empty at the start. A \<open>user_joined\<close> or \<open>user_left\<close> frame
  changes nothing, in whatever state it arrives.
\<close>

theorem log_is_last_history_then_new_messages:
  assumes "\<forall>raw \<in> set frames. well_formed parse raw"
    and "last_history (events parse frames) \<noteq> None \<or> messages st = JArray before"
  shows "messages (process_frames parse st frames) = JArray (spec_log before (events parse frames))
         \<and> (\<forall>raw \<in> set frames. \<forall>s u.
               decode parse raw = Some (UserJoined u) \<or> decode parse raw = Some (UserLeft u)
               \<longrightarrow> deliver parse s raw = s)"
  using log_after_frames[OF assms] deliver_presence by blast

theorem log_is_last_history_then_new_messages_witness:
  "list_all (well_formed JSON_parse) session
   \<and> messages (process_frames JSON_parse initial session) = JArray [alice_message, bob_message]
   \<and> deliver JSON_parse chatting frame_joined = chatting"
proof -
  have wf: "\<forall>raw \<in> set session. well_formed JSON_parse raw"
    by code_simp
  have ev: "events JSON_parse session =
              [NewMessage bob_message, History [alice_message], UserJoined (js ''carol''),
               NewMessage bob_message, UserLeft (js ''carol'')]"
    by code_simp
  have h: "last_history (events JSON_parse session) \<noteq> None \<or> messages initial = JArray []"
    by (simp add: initial_def)
  have j: "frame_joined \<in> set session"
    by (simp add: session_def)
  have d: "decode JSON_parse frame_joined = Some (UserJoined (js ''carol''))"
    by code_simp
  have l: "spec_log [] (events JSON_parse session) = [alice_message, bob_message]"
    unfolding ev by (simp add: spec_log_def after_last_history_def)
  from log_is_last_history_then_new_messages[OF wf h] j d l wf show ?thesis
    by (auto simp: list_all_iff)
qed

text \<open>
  C8. A \<open>history\<close> frame replaces the log by its payload, whatever the log was, so
  processing the frame twice in a row gives the state that processing it once gives.
\<close>

theorem history_is_idempotent:
  assumes "tagged parse raw ''history''"
  shows "process_frames parse st [raw, raw] = process_frames parse st [raw]
         \<and> messages (process_frames parse st [raw]) = payload parse raw ''messages''"
  by (simp add: process_frames_Cons process_frames_Nil deliver_history[OF assms])

theorem history_is_idempotent_witness:
  "tagged JSON_parse frame_history ''history''
   \<and> process_frames JSON_parse chatting [frame_history, frame_history]
       = process_frames JSON_parse chatting [frame_history]
   \<and> messages (process_frames JSON_parse chatting [frame_history]) = JArray [alice_message]"
proof -
  have t: "tagged JSON_parse frame_history ''history''"
    by code_simp
  have p: "payload JSON_parse frame_history ''messages'' = JArray [alice_message]"
    by code_simp
  from history_is_idempotent[OF t, of chatting] t p show ?thesis
    by simp
qed

text \<open>
  C10. The log after a sequence of frames depends on the log before and on the frames only:
  two runs that start from states with the same log, whatever else differs between them, end
  with the same log.
\<close>

theorem log_depends_on_log_and_frames_only:
  assumes "messages s1 = messages s2"
  shows "messages (process_frames parse s1 frames) = messages (process_frames parse s2 frames)"
  using assms
proof (induction frames arbitrary: s1 s2)
  case Nil
  then show ?case by (simp add: process_frames_Nil)
next
  case (Cons raw frames)
  have "messages (deliver parse s1 raw) = messages (deliver parse s2 raw)"
    using Cons.prems by (rule deliver_messages_only)
  then show ?case unfolding process_frames_Cons by (rule Cons.IH)
qed

theorem log_depends_on_log_and_frames_only_witness:
  "messages (chatting\<lparr>messages := JArray []\<rparr>) = messages initial
   \<and> messages (process_frames JSON_parse (chatting\<lparr>messages := JArray []\<rparr>) session)
       = messages (process_frames JSON_parse initial session)"
proof -
  have m: "messages (chatting\<lparr>messages := JArray []\<rparr>) = messages initial"
    by (simp add: initial_def)
  from log_depends_on_log_and_frames_only[OF m, of JSON_parse session] m show ?thesis
    by simp
qed

section \<open>Malformed frames\<close>

lemma onmessage_invalid: "parse raw = None \<Longrightarrow> onmessage parse raw st = Inl SyntaxError"
  by (simp add: onmessage_def)

lemma onmessage_unrecognized:
  assumes "unrecognized parse raw"
  shows "onmessage parse raw st = Inr st"
proof -
  from assms obtain kvs where p: "parse raw = Some (JObject kvs)"
    by (auto simp: unrecognized_def split: option.splits json.splits)
  with assms show ?thesis
    by (simp add: unrecognized_def onmessage_def)
qed

lemma deliver_malformed:
  assumes "malformed parse raw"
  shows "deliver parse st raw = st"
  using assms
  by (auto simp: malformed_def deliver_def onmessage_invalid onmessage_unrecognized)

text \<open>
  C2. A frame that is not JSON makes the handler raise the \<open>SyntaxError\<close> of
  \<open>JSON.parse\<close>, which nothing catches, before it has touched the state. A JSON object
  whose \<open>type\<close> is none of the four tags is dropped without an exception. In both cases the
  state, and so the log, stays as it was, and the frames that follow are processed as if the
  malformed frame had not arrived.
\<close>

theorem malformed_frame_is_dropped:
  "(parse raw = None \<longrightarrow> onmessage parse raw st = Inl SyntaxError)
   \<and> (unrecognized parse raw \<longrightarrow> onmessage parse raw st = Inr st)
   \<and> (malformed parse raw \<longrightarrow>
        deliver parse st raw = st
        \<and> process_frames parse st (raw # frames) = process_frames parse st frames)"
  by (simp add: onmessage_invalid onmessage_unrecognized deliver_malformed process_frames_Cons)

theorem malformed_frame_is_dropped_witness:
  "JSON_parse frame_invalid = None
   \<and> onmessage JSON_parse frame_invalid chatting = Inl SyntaxError
   \<and> unrecognized JSON_parse frame_unknown
   \<and> onmessage JSON_parse frame_unknown chatting = Inr chatting
   \<and> process_frames JSON_parse chatting [frame_invalid, frame_unknown, frame_bob]
       = process_frames JSON_parse chatting [frame_bob]"
proof -
  have i: "JSON_parse frame_invalid = None" by code_simp
  have u: "unrecognized JSON_parse frame_unknown" by code_simp
  have mi: "malformed JSON_parse frame_invalid" using i by (simp add: malformed_def)
  have mu: "malformed JSON_parse frame_unknown" using u by (simp add: malformed_def)
  from malformed_frame_is_dropped[of JSON_parse frame_invalid chatting "[frame_unknown, frame_bob]"]
       malformed_frame_is_dropped[of JSON_parse frame_unknown chatting "[frame_bob]"] i u mi mu
  show ?thesis by simp
qed

text \<open>
  The frame \<open>{oops\<close> is malformed, and the handler raises on it.
\<close>

theorem invalid_json_raises:
  "malformed JSON_parse frame_invalid
   \<and> onmessage JSON_parse frame_invalid initial = Inl SyntaxError"
proof -
  have i: "JSON_parse frame_invalid = None" by code_simp
  then show ?thesis by (simp add: malformed_def onmessage_def)
qed

section \<open>Sending a message\<close>

text \<open>
  C3. When the input is blank after trimming, or the connection is not open, \<open>sendMessage\<close>
  changes nothing: no frame is sent, the log and the input stay as they were.
\<close>

theorem submit_is_noop_when_blank_or_not_connected:
  assumes "trim (inputMessage st) = [] \<or> \<not> connected st"
  shows "sendMessage stringify st = st"
  using assms by (auto simp: sendMessage_def connected_def split: option.splits)

theorem submit_is_noop_when_blank_or_not_connected_witness:
  "trim (inputMessage (chatting\<lparr>inputMessage := js ''   ''\<rparr>)) = []
   \<and> sendMessage JSON_stringify (chatting\<lparr>inputMessage := js ''   ''\<rparr>)
       = chatting\<lparr>inputMessage := js ''   ''\<rparr>
   \<and> trim (inputMessage (onclose chatting)) = js ''hello''
   \<and> sendMessage JSON_stringify (onclose chatting) = onclose chatting"
proof -
  have b: "trim (inputMessage (chatting\<lparr>inputMessage := js ''   ''\<rparr>)) = []"
    by (simp add: trim_def is_white_space_def js_def cu_def)
  have h: "trim (inputMessage (onclose chatting)) = js ''hello''"
    by (simp add: onclose_def chatting_def trim_def is_white_space_def js_def cu_def)
  have n: "\<not> connected (onclose chatting)"
    by (simp add: connected_def onclose_def)
  from submit_is_noop_when_blank_or_not_connected[of "chatting\<lparr>inputMessage := js ''   ''\<rparr>" JSON_stringify]
       submit_is_noop_when_blank_or_not_connected[of "onclose chatting" JSON_stringify] b h n
  show ?thesis by simp
qed

text \<open>
  C4. When the input is not blank after trimming and the connection is open,
  \<open>sendMessage\<close> sends one frame on the socket, the serialisation of the object with
  \<open>type\<close> \<open>message\<close> and the trimmed input as \<open>content\<close>; it leaves the log as it was
  and empties the input.
\<close>

theorem submit_sends_one_frame:
  assumes "trim (inputMessage st) \<noteq> []" and "connected st"
  shows "\<exists>ws. socket st = Some ws
          \<and> sendMessage stringify st =
              st\<lparr>effects := effects st @
                    [WsSend ws (stringify (JObject
                       [(js ''type'', JString (js ''message'')),
                        (js ''content'', JString (trim (inputMessage st)))]))],
                 inputMessage := []\<rparr>
          \<and> messages (sendMessage stringify st) = messages st
          \<and> inputMessage (sendMessage stringify st) = []"
  using assms by (auto simp: sendMessage_def connected_def)

theorem submit_sends_one_frame_witness:
  \<open>trim (inputMessage chatting) = js ''hello'' \<and> connected chatting
   \<and> sendMessage JSON_stringify chatting =
       chatting\<lparr>effects := effects chatting @
                   [WsSend (js ''ws://localhost:8000/ws/alice'')
                      (js ''{"type":"message","content":"hello"}'')],
                inputMessage := []\<rparr>\<close>
proof -
  have t: "trim (inputMessage chatting) = js ''hello''"
    by (simp add: chatting_def trim_def is_white_space_def js_def cu_def)
  have c: "connected chatting"
    by (simp add: connected_def chatting_def)
  have s: \<open>JSON_stringify (JObject [(js ''type'', JString (js ''message'')),
                                    (js ''content'', JString (js ''hello''))])
           = js ''{"type":"message","content":"hello"}''\<close>
    by code_simp
  have ne: "trim (inputMessage chatting) \<noteq> []"
    unfolding t by (simp add: js_def)
  have w: "socket chatting = Some (js ''ws://localhost:8000/ws/alice'')"
    by (simp add: chatting_def)
  from submit_sends_one_frame[OF ne c, of JSON_stringify] t c s w show ?thesis
    by auto
qed

section \<open>Close and error\<close>

lemma onerror_changes_nothing: "onerror st = st"
  by (simp add: onerror_def)

text \<open>
  C7. After a transport close, and after a transport error, the connection is not open any
  more, whatever the state was: \<open>isConnected\<close> is false, which the chat view shows as
  \<open>(Reconnecting...)\<close>. The handlers open no socket and make no request, and the socket
  cell stays as it was, so nothing reconnects.
\<close>

theorem transport_end_leaves_connected:
  "\<not> connected (transport ev st)
   \<and> \<not> isConnected (transport ev st)
   \<and> shows_reconnecting (transport ev st) = isJoined st
   \<and> effects (transport ev st) = effects st
   \<and> socket (transport ev st) = socket st"
  by (cases ev)
     (simp_all add: connected_def onclose_def onerror_changes_nothing shows_reconnecting_def)

section \<open>Frames without their payload\<close>

lemma onmessage_tagged_history:
  assumes "tagged parse raw ''history''"
  shows "onmessage parse raw st = Inr (st\<lparr>messages := payload parse raw ''messages''\<rparr>)"
  using assms
  by (auto simp: tagged_def payload_def onmessage_def split: option.splits)

lemma onmessage_tagged_new_message:
  assumes "tagged parse raw ''new_message''" and "messages st = JArray xs"
  shows "onmessage parse raw st =
           Inr (st\<lparr>messages := JArray (xs @ [payload parse raw ''message''])\<rparr>)"
  using assms
  by (auto simp: tagged_def payload_def onmessage_def tags_distinct tags_distinct[symmetric]
           split: option.splits)

lemma onmessage_new_message_spread:
  assumes "tagged parse raw ''new_message''"
  shows "onmessage parse raw st =
           (case spread (messages st) of
              Inl e \<Rightarrow> Inl e
            | Inr prev \<Rightarrow> Inr (st\<lparr>messages := JArray (prev @ [payload parse raw ''message''])\<rparr>))"
proof -
  from assms obtain data where d: "parse raw = Some data"
    and t: "get_prop data (js ''type'') = JString (js ''new_message'')"
    by (auto simp: tagged_def split: option.splits)
  from t have n: "data \<noteq> JNull" "data \<noteq> JUndefined"
    by auto
  show ?thesis
    by (simp add: onmessage_def payload_def d t n tags_distinct tags_distinct[symmetric]
             split: sum.splits)
qed

lemma spread_fails_no_log: "spread l = Inl e \<Longrightarrow> \<not> is_message_log l"
  by (cases l) (simp_all add: is_message_log_def)

lemma undefined_last_no_log: "\<not> is_message_log (JArray (xs @ [JUndefined]))"
  by (simp add: is_message_log_def is_Message_def)

lemma bare_new_message_no_log:
  assumes "tagged parse raw ''new_message''" and "payload parse raw ''message'' = JUndefined"
  shows "\<not> is_message_log (messages (deliver parse st raw))"
proof (cases "spread (messages st)")
  case (Inl e)
  then show ?thesis
    by (simp add: deliver_def onmessage_new_message_spread[OF assms(1)] spread_fails_no_log)
next
  case (Inr prev)
  then show ?thesis
    by (simp add: deliver_def onmessage_new_message_spread[OF assms(1)] assms(2)
                  undefined_last_no_log)
qed

lemma bare_history_no_log:
  assumes "tagged parse raw ''history''" and "payload parse raw ''messages'' = JUndefined"
  shows "\<not> is_message_log (messages (deliver parse st raw))"
  by (simp add: deliver_def onmessage_tagged_history[OF assms(1)] assms(2) is_message_log_def)

text \<open>
  C9. The handler does not check the payload. A \<open>history\<close> frame without \<open>messages\<close>
  sets the log to \<open>undefined\<close>, whatever the log was; a \<open>new_message\<close> frame without
  \<open>message\<close> appends \<open>undefined\<close> to a log that is an array. After either frame, in
  whatever state it arrived, the log is not a sequence of message records.
\<close>

theorem absent_payload_still_mutates_log:
  "(tagged parse raw ''history'' \<and> payload parse raw ''messages'' = JUndefined \<longrightarrow>
      onmessage parse raw st = Inr (st\<lparr>messages := JUndefined\<rparr>))
   \<and> (tagged parse raw ''new_message'' \<and> payload parse raw ''message'' = JUndefined
        \<and> messages st = JArray xs \<longrightarrow>
      onmessage parse raw st = Inr (st\<lparr>messages := JArray (xs @ [JUndefined])\<rparr>))
   \<and> (tagged parse raw ''history'' \<and> payload parse raw ''messages'' = JUndefined
        \<or> tagged parse raw ''new_message'' \<and> payload parse raw ''message'' = JUndefined \<longrightarrow>
      \<not> is_message_log (messages (deliver parse st raw)))"
  using bare_history_no_log bare_new_message_no_log
  by (auto simp: onmessage_tagged_history onmessage_tagged_new_message)

theorem absent_payload_still_mutates_log_witness:
  "tagged JSON_parse frame_history_bare ''history''
   \<and> payload JSON_parse frame_history_bare ''messages'' = JUndefined
   \<and> is_message_log (messages chatting)
   \<and> onmessage JSON_parse frame_history_bare chatting = Inr (chatting\<lparr>messages := JUndefined\<rparr>)
   \<and> tagged JSON_parse frame_new_message_bare ''new_message''
   \<and> payload JSON_parse frame_new_message_bare ''message'' = JUndefined
   \<and> onmessage JSON_parse frame_new_message_bare chatting
       = Inr (chatting\<lparr>messages := JArray [alice_message, JUndefined]\<rparr>)
   \<and> \<not> is_message_log (messages (deliver JSON_parse chatting frame_history_bare))
   \<and> \<not> is_message_log (messages (deliver JSON_parse chatting frame_new_message_bare))"
proof -
  have a: "tagged JSON_parse frame_history_bare ''history''" by code_simp
  have b: "payload JSON_parse frame_history_bare ''messages'' = JUndefined" by code_simp
  have c: "tagged JSON_parse frame_new_message_bare ''new_message''" by code_simp
  have d: "payload JSON_parse frame_new_message_bare ''message'' = JUndefined" by code_simp
  have e: "is_message_log (messages chatting)" by code_simp
  have m: "messages chatting = JArray [alice_message]" by (simp add: chatting_def)
  from absent_payload_still_mutates_log[of JSON_parse frame_history_bare chatting "[alice_message]"]
       absent_payload_still_mutates_log[of JSON_parse frame_new_message_bare chatting "[alice_message]"] a b c d e m
  show ?thesis by simp
qed

section \<open>Joining the chat\<close>

lemma connectWebSocket_eq:
  "connectWebSocket accepts env st =
     (if accepts (ws_address env (username st))
      then Inr (st\<lparr>socket := Some (ws_address env (username st)),
                   effects := effects st @ [WsOpen (ws_address env (username st))]\<rparr>)
      else Inl DOMException)"
  by (simp add: connectWebSocket_def ws_address_def Let_def)

lemma joinChat_blank:
  "trim (username st) = [] \<Longrightarrow> joinChat http accepts env st = (None, st)"
  by (simp add: joinChat_def)

lemma joinChat_not_found:
  assumes "trim (username st) \<noteq> []" and "http (lookup_request st) = Rejected (Some 404)"
  shows "joinChat http accepts env st =
     (case http (create_request st) of
        Rejected r \<Rightarrow>
          (Some (AxiosError r),
           st\<lparr>effects := effects st @ [Http (lookup_request st), Http (create_request st)]\<rparr>)
      | Fulfilled \<Rightarrow>
          (if accepts (ws_address env (username st))
           then (None,
                 st\<lparr>isJoined := True, socket := Some (ws_address env (username st)),
                    effects := effects st @ [Http (lookup_request st), Http (create_request st),
                                             WsOpen (ws_address env (username st))]\<rparr>)
           else (Some DOMException,
                 st\<lparr>isJoined := True,
                    effects := effects st @ [Http (lookup_request st), Http (create_request st)]\<rparr>)))"
  using assms
  by (simp add: joinChat_def connectWebSocket_eq lookup_request_def create_request_def Let_def
           split: axios_result.splits)

lemma joinChat_other_failure:
  assumes "trim (username st) \<noteq> []" and "http (lookup_request st) = Rejected r"
    and "r \<noteq> Some 404"
  shows "joinChat http accepts env st =
           (None, st\<lparr>effects := effects st @ [Http (lookup_request st)]\<rparr>)"
proof -
  from assms(3) have "\<not> is_not_found (AxiosError r)"
    by (cases r) simp_all
  with assms(1,2) show ?thesis
    by (simp add: joinChat_def lookup_request_def Let_def)
qed

lemma joinChat_found:
  assumes "trim (username st) \<noteq> []" and "http (lookup_request st) = Fulfilled"
  shows "joinChat http accepts env st =
          (None,
           if accepts (ws_address env (username st))
           then st\<lparr>isJoined := True, socket := Some (ws_address env (username st)),
                   effects := effects st @ [Http (lookup_request st),
                                            WsOpen (ws_address env (username st))]\<rparr>
           else st\<lparr>isJoined := True, effects := effects st @ [Http (lookup_request st)]\<rparr>)"
  using assms
  by (simp add: joinChat_def connectWebSocket_eq lookup_request_def Let_def)

lemma requests_append: "requests (xs @ ys) = requests xs @ requests ys"
  by (induction xs rule: requests.induct) auto

text \<open>
  C5. With a name that is blank after trimming, \<open>joinChat\<close> makes no request and changes
  nothing. When the lookup is rejected with status 404, the requests made are the lookup
  and one create request for the trimmed name, and the user is joined when the create
  request succeeds; when it is rejected, the state stays as it was but for the two requests.
  When the lookup is rejected in any other way, the lookup is the only request, the state
  stays as it was but for it, and no exception leaves \<open>joinChat\<close>.
\<close>

theorem join_outcomes:
  "(trim (username st) = [] \<longrightarrow> joinChat http accepts env st = (None, st))
   \<and> (trim (username st) \<noteq> [] \<and> http (lookup_request st) = Rejected (Some 404) \<longrightarrow>
        requests (effects (snd (joinChat http accepts env st)))
          = requests (effects st) @ [lookup_request st, create_request st]
        \<and> (http (create_request st) = Fulfilled \<longrightarrow> isJoined (snd (joinChat http accepts env st)))
        \<and> (\<forall>r. http (create_request st) = Rejected r \<longrightarrow>
              snd (joinChat http accepts env st) =
                st\<lparr>effects := effects st @ [Http (lookup_request st), Http (create_request st)]\<rparr>))
   \<and> (\<forall>r. trim (username st) \<noteq> [] \<and> http (lookup_request st) = Rejected r \<and> r \<noteq> Some 404 \<longrightarrow>
        joinChat http accepts env st =
          (None, st\<lparr>effects := effects st @ [Http (lookup_request st)]\<rparr>))"
proof (intro conjI impI allI)
  assume "trim (username st) = []"
  then show "joinChat http accepts env st = (None, st)" by (rule joinChat_blank)
next
  assume a: "trim (username st) \<noteq> [] \<and> http (lookup_request st) = Rejected (Some 404)"
  then have j: "joinChat http accepts env st =
     (case http (create_request st) of
        Rejected r \<Rightarrow>
          (Some (AxiosError r),
           st\<lparr>effects := effects st @ [Http (lookup_request st), Http (create_request st)]\<rparr>)
      | Fulfilled \<Rightarrow>
          (if accepts (ws_address env (username st))
           then (None,
                 st\<lparr>isJoined := True, socket := Some (ws_address env (username st)),
                    effects := effects st @ [Http (lookup_request st), Http (create_request st),
                                             WsOpen (ws_address env (username st))]\<rparr>)
           else (Some DOMException,
                 st\<lparr>isJoined := True,
                    effects := effects st @ [Http (lookup_request st), Http (create_request st)]\<rparr>)))"
    by (simp add: joinChat_not_found)
  show "requests (effects (snd (joinChat http accepts env st)))
          = requests (effects st) @ [lookup_request st, create_request st]"
    unfolding j by (simp add: requests_append split: axios_result.splits)
  {
    assume "http (create_request st) = Fulfilled"
    then show "isJoined (snd (joinChat http accepts env st))"
      unfolding j by simp
  }
  {
    fix r assume "http (create_request st) = Rejected r"
    then show "snd (joinChat http accepts env st) =
                st\<lparr>effects := effects st @ [Http (lookup_request st), Http (create_request st)]\<rparr>"
      unfolding j by simp
  }
next
  fix r
  assume "trim (username st) \<noteq> [] \<and> http (lookup_request st) = Rejected r \<and> r \<noteq> Some 404"
  then show "joinChat http accepts env st =
          (None, st\<lparr>effects := effects st @ [Http (lookup_request st)]\<rparr>)"
    by (simp add: joinChat_other_failure)
qed

lemma trim_samples:
  "trim (js ''alice'') = js ''alice''" "trim (js '' alice'') = js ''alice''" "trim (js ''  '') = []"
  by (simp_all add: trim_def is_white_space_def js_def cu_def)

lemma ws_address_default: "ws_address None name = js ''ws://localhost:8000/ws/'' @ name"
  by (simp add: ws_address_def API_URL_def WS_URL_def strip_scheme_def strip_trailing_slash_def js_def cu_def)

text \<open>
  The lookup answers 404 and the create request answers 500: the user is not joined.
\<close>

theorem join_fails_when_create_fails:
  "create_fails (lookup_request (typed ''alice'')) = Rejected (Some 404)
   \<and> joinChat create_fails no_fragment None (typed ''alice'') =
       (Some (AxiosError (Some 500)),
        (typed ''alice'')\<lparr>effects := [Http (Get (js ''/users/alice'')),
                                     Http (Post (js ''/users'') [(js ''username'', js ''alice'')])]\<rparr>)
   \<and> \<not> isJoined (snd (joinChat create_fails no_fragment None (typed ''alice'')))"
proof -
  have t: "trim (username (typed ''alice'')) = js ''alice''"
    by (simp add: typed_def trim_samples)
  have ne: "trim (username (typed ''alice'')) \<noteq> []"
    unfolding t by (simp add: js_def)
  have l: "create_fails (lookup_request (typed ''alice'')) = Rejected (Some 404)"
    by (simp add: create_fails_def lookup_request_def)
  have c: "create_fails (create_request (typed ''alice'')) = Rejected (Some 500)"
    by (simp add: create_fails_def create_request_def)
  have e: "effects (typed ''alice'') = []" "isJoined (typed ''alice'') = False"
    by (simp_all add: typed_def initial_def)
  have q: "lookup_request (typed ''alice'') = Get (js ''/users/alice'')"
          "create_request (typed ''alice'') = Post (js ''/users'') [(js ''username'', js ''alice'')]"
    by (simp_all add: lookup_request_def create_request_def t js_def)
  have j: "joinChat create_fails no_fragment None (typed ''alice'') =
             (Some (AxiosError (Some 500)),
              (typed ''alice'')\<lparr>effects := effects (typed ''alice'') @
                 [Http (lookup_request (typed ''alice'')), Http (create_request (typed ''alice''))]\<rparr>)"
    by (simp add: joinChat_not_found[where http=create_fails and accepts=no_fragment and env=None, OF ne l] c)
  show ?thesis
    unfolding j using l by (simp add: e q)
qed

theorem join_outcomes_witness:
  "joinChat known_user no_fragment None (typed ''  '') = (None, typed ''  '')
   \<and> new_user (lookup_request (typed ''alice'')) = Rejected (Some 404)
   \<and> new_user (create_request (typed ''alice'')) = Fulfilled
   \<and> requests (effects (snd (joinChat new_user no_fragment None (typed ''alice''))))
       = [Get (js ''/users/alice''), Post (js ''/users'') [(js ''username'', js ''alice'')]]
   \<and> isJoined (snd (joinChat new_user no_fragment None (typed ''alice'')))
   \<and> create_fails (create_request (typed ''alice'')) = Rejected (Some 500)
   \<and> snd (joinChat create_fails no_fragment None (typed ''alice'')) =
       (typed ''alice'')\<lparr>effects := [Http (Get (js ''/users/alice'')),
                                    Http (Post (js ''/users'') [(js ''username'', js ''alice'')])]\<rparr>
   \<and> directory_down (lookup_request (typed ''alice'')) = Rejected None
   \<and> joinChat directory_down no_fragment None (typed ''alice'') =
       (None, (typed ''alice'')\<lparr>effects := [Http (Get (js ''/users/alice''))]\<rparr>)"
proof -
  have fl: "create_fails (lookup_request (typed ''alice'')) = Rejected (Some 404)"
    by (simp add: create_fails_def lookup_request_def)
  have fc: "create_fails (create_request (typed ''alice'')) = Rejected (Some 500)"
    by (simp add: create_fails_def create_request_def)
  have b: "trim (username (typed ''  '')) = []"
    by (simp add: typed_def trim_samples)
  have t: "trim (username (typed ''alice'')) = js ''alice''"
    by (simp add: typed_def trim_samples)
  have ne: "trim (username (typed ''alice'')) \<noteq> []"
    unfolding t by (simp add: js_def)
  have l: "new_user (lookup_request (typed ''alice'')) = Rejected (Some 404)"
    by (simp add: new_user_def lookup_request_def)
  have c: "new_user (create_request (typed ''alice'')) = Fulfilled"
    by (simp add: new_user_def create_request_def)
  have d: "directory_down (lookup_request (typed ''alice'')) = Rejected None"
    by (simp add: directory_down_def)
  have e: "effects (typed ''alice'') = []"
    by (simp add: typed_def initial_def)
  have q: "lookup_request (typed ''alice'') = Get (js ''/users/alice'')"
          "create_request (typed ''alice'') = Post (js ''/users'') [(js ''username'', js ''alice'')]"
    by (simp_all add: lookup_request_def create_request_def t js_def)
  from join_outcomes[of "typed ''  ''" known_user no_fragment None]
       join_outcomes[of "typed ''alice''" new_user no_fragment None]
       join_outcomes[of "typed ''alice''" create_fails no_fragment None]
       join_outcomes[of "typed ''alice''" directory_down no_fragment None]
       b ne l c fl fc d e q
  show ?thesis by simp
qed

text \<open>
  C6. The name typed with a space in front: the directory is asked for \<open>alice\<close>, and the
  socket is opened for the name as typed, space and all.
\<close>

theorem address_keeps_untrimmed_username:
  "joinChat known_user no_fragment None (typed '' alice'') =
     (None,
      (typed '' alice'')\<lparr>isJoined := True,
         socket := Some (js ''ws://localhost:8000/ws/ alice''),
         effects := [Http (Get (js ''/users/alice'')),
                     WsOpen (js ''ws://localhost:8000/ws/ alice'')]\<rparr>)"
proof -
  have t: "trim (username (typed '' alice'')) = js ''alice''"
    by (simp add: typed_def trim_samples)
  have ne: "trim (username (typed '' alice'')) \<noteq> []"
    unfolding t by (simp add: js_def)
  have l: "known_user (lookup_request (typed '' alice'')) = Fulfilled"
    by (simp add: known_user_def)
  have u: "username (typed '' alice'') = js '' alice''" "effects (typed '' alice'') = []"
    by (simp_all add: typed_def initial_def)
  have a: "ws_address None (js '' alice'') = js ''ws://localhost:8000/ws/ alice''"
    by (simp add: ws_address_default js_def)
  have n: "no_fragment (js ''ws://localhost:8000/ws/ alice'')"
    by (simp add: no_fragment_def js_def cu_def)
  have q: "lookup_request (typed '' alice'') = Get (js ''/users/alice'')"
    by (simp add: lookup_request_def t js_def)
  have j: "joinChat known_user no_fragment None (typed '' alice'') =
          (None,
           if no_fragment (ws_address None (username (typed '' alice'')))
           then (typed '' alice'')\<lparr>isJoined := True,
                   socket := Some (ws_address None (username (typed '' alice''))),
                   effects := effects (typed '' alice'') @ [Http (lookup_request (typed '' alice'')),
                                            WsOpen (ws_address None (username (typed '' alice'')))]\<rparr>
           else (typed '' alice'')\<lparr>isJoined := True,
                   effects := effects (typed '' alice'') @ [Http (lookup_request (typed '' alice''))]\<rparr>)"
    by (rule joinChat_found[where http=known_user and accepts=no_fragment and env=None, OF ne l])
  show ?thesis
    unfolding j u a q using n by simp
qed

lemma address_shape:
  "prefix (if prefix (js ''https'') (API_URL env) then js ''wss://'' else js ''ws://'')
          (ws_address env name)"
  "suffix (js ''/ws/'' @ name) (ws_address env name)"
  by (simp_all add: ws_address_def js_def suffix_def)

text \<open>
  The session of the specification's scenario: alice is not known, is registered, the socket
  opens, an empty history arrives and then a message of bob.
\<close>

lemma scenario_join_and_receive:
  "process_frames JSON_parse
     (onopen (snd (joinChat new_user no_fragment None (typed ''alice''))))
     [frame_history_empty, frame_bob]
   = \<lparr>username = js ''alice'', isJoined = True, messages = JArray [bob_message],
      inputMessage = [], socket = Some (js ''ws://localhost:8000/ws/alice''),
      isConnected = True,
      effects = [Http (Get (js ''/users/alice'')),
                 Http (Post (js ''/users'') [(js ''username'', js ''alice'')]),
                 WsOpen (js ''ws://localhost:8000/ws/alice'')]\<rparr>"
  by code_simp

end
